theory Spec2Isabelle
  imports Complex_Main
begin

section \<open>Numbers, points and failures\<close>

text \<open>
  The geometric engine of \<^verbatim>\<open>database_gen.py\<close> works on NumPy arrays of
  floating-point numbers. Coordinates, scores and the edge length \<open>ls\<close> are modelled
  as exact reals: rounding is outside the model. The one place where the result of an
  arithmetic operation is not a number of the model is the division that ends
  \<^verbatim>\<open>place_inner_vertex\<close>: NumPy does not raise on a zero divisor, it yields
  \<^verbatim>\<open>nan\<close> or \<^verbatim>\<open>inf\<close>. That outcome is the value \<open>NonFinite\<close>.
\<close>

type_synonym point = "real \<times> real"

datatype error = ValueError | IndexError | ZeroDivisionError

datatype fl = Finite real | NonFinite

definition fdiv :: "real \<Rightarrow> real \<Rightarrow> fl" where
  "fdiv a b = (if b = 0 then NonFinite else Finite (a / b))"

text \<open>
  Indexing a Python list or a NumPy array with an integer: an index in
  \<open>[-n, 0)\<close> counts from the end, anything outside \<open>[-n, n)\<close> raises
  \<^verbatim>\<open>IndexError\<close>.
\<close>

definition getitem :: "'a list \<Rightarrow> int \<Rightarrow> error + 'a" where
  "getitem arr k =
     (if 0 \<le> k \<and> k < int (length arr) then Inr (arr ! nat k)
      else if k < 0 \<and> - int (length arr) \<le> k then Inr (arr ! nat (int (length arr) + k))
      else Inl IndexError)"

section \<open>Point-in-polygon oracle\<close>

text \<open>
  \<^verbatim>\<open>is_in_contour(x, y, coord)\<close>: the loop over \<open>i\<close> with the trailing index
  \<open>j\<close> and the parity flag \<open>c\<close>. The two \<^verbatim>\<open>return True\<close> statements
  leave the loop at once.
\<close>

definition slope_at :: "real \<Rightarrow> real \<Rightarrow> point \<Rightarrow> point \<Rightarrow> real" where
  "slope_at x y p q =
     (x - fst p) * (snd q - snd p) - (fst q - fst p) * (y - snd p)"

fun ic_loop :: "real \<Rightarrow> real \<Rightarrow> point list \<Rightarrow> nat list \<Rightarrow> nat \<Rightarrow> bool \<Rightarrow> bool" where
  "ic_loop x y coord [] j c = c"
| "ic_loop x y coord (i # is) j c =
     (if x = fst (coord ! i) \<and> y = snd (coord ! i) then True
      else if (snd (coord ! i) > y) \<noteq> (snd (coord ! j) > y) then
        (if slope_at x y (coord ! i) (coord ! j) = 0 then True
         else if (slope_at x y (coord ! i) (coord ! j) < 0) \<noteq> (snd (coord ! j) < snd (coord ! i))
           then ic_loop x y coord is i (\<not> c)
           else ic_loop x y coord is i c)
      else ic_loop x y coord is i c)"

definition is_in_contour :: "real \<Rightarrow> real \<Rightarrow> point list \<Rightarrow> bool" where
  "is_in_contour x y coord =
     (let num = length coord in ic_loop x y coord [0..<num] (num - 1) False)"

text \<open>The square contour of the specification's examples.\<close>

definition unit_square :: "point list" where
  "unit_square = [(-1, -1), (1, -1), (1, 1), (-1, 1)]"

text \<open>
  The crossing rule in the words of the specification: an edge runs from the previous
  vertex \<open>q\<close> to the current vertex \<open>p\<close>; it straddles the query's \<open>y\<close> when
  exactly one endpoint is strictly above, and it is counted when it straddles and the
  signed-area test puts it on the counted side.
\<close>

definition straddles :: "real \<Rightarrow> point \<Rightarrow> point \<Rightarrow> bool" where
  "straddles y p q = ((snd p > y) \<noteq> (snd q > y))"

definition counted_side :: "real \<Rightarrow> real \<Rightarrow> point \<Rightarrow> point \<Rightarrow> bool" where
  "counted_side x y p q = ((slope_at x y p q < 0) \<noteq> (snd q < snd p))"

definition edges :: "point list \<Rightarrow> (point \<times> point) list" where
  "edges coord =
     map (\<lambda>i. (coord ! i, coord ! (if i = 0 then length coord - 1 else i - 1)))
       [0..<length coord]"

definition crossings :: "real \<Rightarrow> real \<Rightarrow> point list \<Rightarrow> nat" where
  "crossings x y coord =
     length (filter (\<lambda>(p, q). straddles y p q \<and> counted_side x y p q) (edges coord))"

section \<open>Bounded grid builder\<close>






section \<open>Distance-field scorer\<close>

text \<open>
  The built-in \<^verbatim>\<open>min\<close> raises \<^verbatim>\<open>ValueError\<close> on an empty sequence and
  otherwise keeps the smallest element met so far.
\<close>

fun py_min :: "real list \<Rightarrow> error + real" where
  "py_min [] = Inl ValueError"
| "py_min (v # vs) = Inr (fold (\<lambda>a m. if a < m then a else m) vs v)"

text \<open>
  \<^verbatim>\<open>score_of_node(node, nodes)\<close>: \<open>nodes\<close> is the flat array
  \<open>x0, y0, x1, y1, ...\<close> of the inner vertices; \<open>dist\<close> starts as zeros and is
  filled by index.
\<close>

definition score_of_node :: "point \<Rightarrow> real list \<Rightarrow> error + real" where
  "score_of_node node nodes =
     (let nb_nodes = length nodes div 2;
          dist = fold (\<lambda>i d. d[i := sqrt ((fst node - nodes ! (2 * i))\<^sup>2
                                         + (snd node - nodes ! (2 * i + 1))\<^sup>2)])
                   [0..<nb_nodes] (replicate nb_nodes 0)
      in py_min dist)"

text \<open>
  \<^verbatim>\<open>calculate_score_array(grid, coord_inner_v)\<close>: an exception of
  \<^verbatim>\<open>score_of_node\<close> ends the loop.
\<close>

fun csa_loop :: "nat list \<Rightarrow> point list \<Rightarrow> real list \<Rightarrow> real list \<Rightarrow> error + real list" where
  "csa_loop [] grid coord_inner_v Scores = Inr Scores"
| "csa_loop (i # is) grid coord_inner_v Scores =
     (case score_of_node (fst (grid ! i), snd (grid ! i)) coord_inner_v of
        Inl e \<Rightarrow> Inl e
      | Inr v \<Rightarrow> csa_loop is grid coord_inner_v (Scores[i := v]))"

definition calculate_score_array :: "point list \<Rightarrow> real list \<Rightarrow> error + real list" where
  "calculate_score_array grid coord_inner_v =
     (let nb_nodes = length grid in
      csa_loop [0..<nb_nodes] grid coord_inner_v (replicate nb_nodes 0))"

text \<open>
  The targets as points, and the Euclidean distance, in the words of the specification.
\<close>

definition targets_of :: "real list \<Rightarrow> point list" where
  "targets_of nodes = map (\<lambda>i. (nodes ! (2 * i), nodes ! (2 * i + 1))) [0..<length nodes div 2]"

definition euclid :: "point \<Rightarrow> point \<Rightarrow> real" where
  "euclid p t = sqrt ((fst p - fst t)\<^sup>2 + (snd p - snd t)\<^sup>2)"

section \<open>Local interpolation recoverer\<close>

text \<open>
  \<^verbatim>\<open>np.argmin\<close> is NumPy's: the index of the first occurrence of the minimum,
  \<^verbatim>\<open>ValueError\<close> on an empty array.
\<close>

fun argmin_from :: "real list \<Rightarrow> nat \<Rightarrow> nat \<Rightarrow> real \<Rightarrow> nat" where
  "argmin_from [] k best v = best"
| "argmin_from (a # as) k best v =
     (if a < v then argmin_from as (Suc k) k a else argmin_from as (Suc k) best v)"

definition np_argmin :: "real list \<Rightarrow> error + nat" where
  "np_argmin a = (case a of [] \<Rightarrow> Inl ValueError | v # vs \<Rightarrow> Inr (argmin_from vs 1 0 v))"

text \<open>
  The objects \<^verbatim>\<open>place_inner_vertex\<close> can reach and change: the two arrays it is
  given and the list \<^verbatim>\<open>local_domain_label\<close> it builds with \<^verbatim>\<open>append\<close>
  and \<^verbatim>\<open>del\<close>. Every statement of the function is a step on this record.
\<close>

record heap =
  scores_arr :: "real list"
  grid_arr :: "point list"
  local_domain_label :: "int list"

text \<open>The lattice spacing read off \<^verbatim>\<open>grid[coord_min_label + 1]\<close>.\<close>

definition infer_gscale :: "point list \<Rightarrow> nat \<Rightarrow> error + point \<times> real" where
  "infer_gscale grid coord_min_label =
     (case getitem grid (int coord_min_label) of
        Inl e \<Rightarrow> Inl e
      | Inr coord_min \<Rightarrow>
          (case getitem grid (int coord_min_label + 1) of
             Inl e \<Rightarrow> Inl e
           | Inr nxt \<Rightarrow> Inr (coord_min, \<bar>fst coord_min - fst nxt\<bar>)))"

text \<open>The body of the scan \<^verbatim>\<open>for i in range(len(grid))\<close>.\<close>

definition scan_body :: "point \<Rightarrow> real \<Rightarrow> nat \<Rightarrow> heap \<Rightarrow> heap" where
  "scan_body coord_min Gscale i h =
     (if fst (grid_arr h ! i) = fst coord_min then
        (if \<bar>snd (grid_arr h ! i) - snd coord_min\<bar> \<le> 1.1 * Gscale then
           h\<lparr>local_domain_label := local_domain_label h @ [int i - 1, int i, int i + 1]\<rparr>
         else h)
      else h)"

text \<open>\<^verbatim>\<open>del local_domain_label[4]\<close>.\<close>

definition del_label :: "heap \<Rightarrow> error + heap" where
  "del_label h =
     (if length (local_domain_label h) \<le> 4 then Inl IndexError
      else Inr (h\<lparr>local_domain_label :=
                    take 4 (local_domain_label h) @ drop 5 (local_domain_label h)\<rparr>))"

text \<open>The comprehension \<^verbatim>\<open>[scores[i] for i in local_domain_label]\<close>.\<close>

fun gather :: "real list \<Rightarrow> int list \<Rightarrow> error + real list" where
  "gather arr [] = Inr []"
| "gather arr (k # ks) =
     (case getitem arr k of
        Inl e \<Rightarrow> Inl e
      | Inr v \<Rightarrow> (case gather arr ks of Inl e \<Rightarrow> Inl e | Inr vs \<Rightarrow> Inr (v # vs)))"

text \<open>
  One of the two summation loops: \<open>c\<close> selects the coordinate, the pair is the
  running \<open>(sum, sum_score)\<close>.
\<close>

fun wsum :: "nat list \<Rightarrow> real list \<Rightarrow> int list \<Rightarrow> point list \<Rightarrow> (point \<Rightarrow> real)
    \<Rightarrow> real \<times> real \<Rightarrow> error + real \<times> real" where
  "wsum [] lds ldl grid c acc = Inr acc"
| "wsum (i # is) lds ldl grid c acc =
     (case getitem lds (int i) of
        Inl e \<Rightarrow> Inl e
      | Inr w \<Rightarrow>
          (case getitem ldl (int i) of
             Inl e \<Rightarrow> Inl e
           | Inr l \<Rightarrow>
               (case getitem grid l of
                  Inl e \<Rightarrow> Inl e
                | Inr p \<Rightarrow> wsum is lds ldl grid c (fst acc + w * c p, snd acc + w))))"

definition place_inner_vertex_h :: "real \<Rightarrow> heap \<Rightarrow> (error + fl \<times> fl) \<times> heap" where
  "place_inner_vertex_h ls h =
     (case np_argmin (scores_arr h) of
        Inl e \<Rightarrow> (Inl e, h)
      | Inr coord_min_label \<Rightarrow>
     (case infer_gscale (grid_arr h) coord_min_label of
        Inl e \<Rightarrow> (Inl e, h)
      | Inr (coord_min, Gscale) \<Rightarrow>
     (let h1 = fold (scan_body coord_min Gscale) [0..<length (grid_arr h)]
                 (h\<lparr>local_domain_label := []\<rparr>) in
      case del_label h1 of
        Inl e \<Rightarrow> (Inl e, h1)
      | Inr h2 \<Rightarrow>
     (case gather (scores_arr h2) (local_domain_label h2) of
        Inl e \<Rightarrow> (Inl e, h2)
      | Inr local_domain_scores \<Rightarrow>
     (case wsum [0, 1, 2, 5, 6, 7] local_domain_scores (local_domain_label h2) (grid_arr h2)
             fst (0, 0) of
        Inl e \<Rightarrow> (Inl e, h2)
      | Inr (xsum, xsum_score) \<Rightarrow>
     (case wsum [0, 3, 5, 2, 4, 7] local_domain_scores (local_domain_label h2) (grid_arr h2)
             snd (0, 0) of
        Inl e \<Rightarrow> (Inl e, h2)
      | Inr (ysum, ysum_score) \<Rightarrow>
          (Inr (fdiv xsum xsum_score, fdiv ysum ysum_score), h2)))))))"

text \<open>
  \<^verbatim>\<open>place_inner_vertex(scores, grid, ls)\<close> as its caller sees it: the value
  returned or the exception raised.
\<close>

definition place_inner_vertex :: "real list \<Rightarrow> point list \<Rightarrow> real \<Rightarrow> error + fl \<times> fl" where
  "place_inner_vertex scores grid ls =
     fst (place_inner_vertex_h ls \<lparr>scores_arr = scores, grid_arr = grid, local_domain_label = []\<rparr>)"

text \<open>
  The neighbourhood the function works on, as a value: the labels collected by the scan
  around \<open>grid[m]\<close>, with the entry at list position 4 taken out.
\<close>

definition collect_labels :: "point list \<Rightarrow> point \<Rightarrow> real \<Rightarrow> int list" where
  "collect_labels grid coord_min Gscale =
     concat (map (\<lambda>i. if fst (grid ! i) = fst coord_min
                          \<and> \<bar>snd (grid ! i) - snd coord_min\<bar> \<le> 1.1 * Gscale
                       then [int i - 1, int i, int i + 1] else [])
       [0..<length grid])"

definition neighbourhood :: "point list \<Rightarrow> nat \<Rightarrow> int list" where
  "neighbourhood grid m =
     (let labels = collect_labels grid (grid ! m) \<bar>fst (grid ! m) - fst (grid ! Suc m)\<bar>
      in take 4 labels @ drop 5 labels)"

section \<open>Iterative vertex recovery loop\<close>

text \<open>
  The test of \<^verbatim>\<open>remove_points_grid\<close>. A comparison with \<^verbatim>\<open>nan\<close> or
  \<^verbatim>\<open>inf\<close> on the left is false, so a non-finite vertex is close to nothing.
\<close>

definition too_close :: "real \<Rightarrow> fl \<times> fl \<Rightarrow> point \<Rightarrow> bool" where
  "too_close radius vert p =
     (case vert of
        (Finite x, Finite y) \<Rightarrow> (fst p - x)\<^sup>2 + (snd p - y)\<^sup>2 < radius\<^sup>2
      | _ \<Rightarrow> False)"

text \<open>
  \<^verbatim>\<open>np.delete(arr, obj)\<close> is NumPy's: a copy of the array without the entries at
  the given indices, \<^verbatim>\<open>IndexError\<close> for an index past the end.
\<close>

definition np_delete :: "'a list \<Rightarrow> nat list \<Rightarrow> error + 'a list" where
  "np_delete arr obj =
     (if \<exists>k \<in> set obj. length arr \<le> k then Inl IndexError
      else Inr (map snd (filter (\<lambda>ka. fst ka \<notin> set obj) (zip [0..<length arr] arr))))"

definition remove_points_grid ::
    "real \<Rightarrow> fl \<times> fl \<Rightarrow> point list \<Rightarrow> real list \<Rightarrow> error + point list \<times> real list" where
  "remove_points_grid ls vert grid scores =
     (let radius = 0.1 * ls;
          to_remove = fold (\<lambda>i acc. if too_close radius vert (grid ! i) then acc @ [i] else acc)
                        [0..<length grid] []
      in case np_delete grid to_remove of
           Inl e \<Rightarrow> Inl e
         | Inr grid' \<Rightarrow>
             (case np_delete scores to_remove of
                Inl e \<Rightarrow> Inl e
              | Inr scores' \<Rightarrow> Inr (grid', scores')))"

text \<open>
  \<^verbatim>\<open>compute_vertices\<close>: the body of the loop on the triple
  \<open>(grid, scores, out_vertices)\<close>, the loop over \<^verbatim>\<open>range(nb_inner_v)\<close>, and
  the function. \<^verbatim>\<open>np.zeros\<close> refuses a negative size. The contour is not read.
\<close>

type_synonym cv_state = "point list \<times> real list \<times> (fl \<times> fl) list"

definition cv_body :: "real \<Rightarrow> nat \<Rightarrow> cv_state \<Rightarrow> error + cv_state" where
  "cv_body ls i st =
     (case st of (grid, scores, out_vertices) \<Rightarrow>
        (case place_inner_vertex scores grid ls of
           Inl e \<Rightarrow> Inl e
         | Inr v \<Rightarrow>
             (let out' = out_vertices[i := v] in
              case remove_points_grid ls (out' ! i) grid scores of
                Inl e \<Rightarrow> Inl e
              | Inr (grid', scores') \<Rightarrow> Inr (grid', scores', out'))))"

fun cv_loop :: "real \<Rightarrow> nat list \<Rightarrow> cv_state \<Rightarrow> error + cv_state" where
  "cv_loop ls [] st = Inr st"
| "cv_loop ls (i # is) st =
     (case cv_body ls i st of Inl e \<Rightarrow> Inl e | Inr st' \<Rightarrow> cv_loop ls is st')"

definition compute_vertices ::
    "real \<Rightarrow> point list \<Rightarrow> point list \<Rightarrow> real list \<Rightarrow> int \<Rightarrow> error + (fl \<times> fl) list" where
  "compute_vertices ls contour grid scores nb_inner_v =
     (if nb_inner_v < 0 then Inl ValueError
      else case cv_loop ls [0..<nat nb_inner_v]
                  (grid, scores, replicate (nat nb_inner_v) (Finite 0, Finite 0)) of
             Inl e \<Rightarrow> Inl e
           | Inr (grid', scores', out_vertices) \<Rightarrow> Inr out_vertices)"

text \<open>The state of the loop after its first \<open>k\<close> iterations.\<close>

definition cv_after :: "real \<Rightarrow> point list \<Rightarrow> real list \<Rightarrow> int \<Rightarrow> nat \<Rightarrow> error + cv_state" where
  "cv_after ls grid scores nb_inner_v k =
     cv_loop ls [0..<k] (grid, scores, replicate (nat nb_inner_v) (Finite 0, Finite 0))"

text \<open>
  The precondition of the interpolation, in the words of the specification: the minimum
  is at \<open>m\<close>, its right-hand neighbour \<open>m + 1\<close> is in the grid, the scan leaves
  exactly 8 neighbour slots, and each of them is an index of both arrays.
\<close>

definition eight_neighbours :: "real list \<Rightarrow> point list \<Rightarrow> nat \<Rightarrow> bool" where
  "eight_neighbours scores grid m \<longleftrightarrow>
     np_argmin scores = Inr m \<and> Suc m < length grid
     \<and> length (neighbourhood grid m) = 8
     \<and> (\<forall>l \<in> set (neighbourhood grid m).
           0 \<le> l \<and> l < int (length grid) \<and> l < int (length scores))"

text \<open>
  The weighted barycentre of one coordinate \<open>c\<close>: the entries of the neighbourhood
  \<open>nb\<close> at the list positions \<open>ps\<close>, each weighted by its score.
\<close>

definition barycentre :: "nat list \<Rightarrow> int list \<Rightarrow> real list \<Rightarrow> point list \<Rightarrow> (point \<Rightarrow> real) \<Rightarrow> fl" where
  "barycentre ps nb scores grid c =
     fdiv (\<Sum>k\<leftarrow>ps. scores ! nat (nb ! k) * c (grid ! nat (nb ! k)))
          (\<Sum>k\<leftarrow>ps. scores ! nat (nb ! k))"

section \<open>Sample grids\<close>

text \<open>
  Lattices of spacing 1 in row-major order: four columns by three rows, and three
  columns by four rows. \<open>scores_inner\<close> has its minimum at index 5, the point
  \<open>(1, 1)\<close> with all eight neighbours; \<open>scores_left\<close> at index 6, the point
  \<open>(0, 2)\<close> of the left column; \<open>scores_bottom\<close> at index 1, the point
  \<open>(1, 0)\<close> of the bottom row.
\<close>

definition grid_4x3 :: "point list" where
  "grid_4x3 = [(0, 0), (1, 0), (2, 0), (3, 0),
               (0, 1), (1, 1), (2, 1), (3, 1),
               (0, 2), (1, 2), (2, 2), (3, 2)]"

definition scores_inner :: "real list" where
  "scores_inner = [1, 1, 3, 1,  1, 1 / 2, 1, 1,  1, 1, 3, 1]"




section \<open>The oracle decides by the parity of counted crossings\<close>

lemma ic_loop_parity:
  assumes "\<forall>i \<in> set is. (x, y) \<noteq> coord ! i"
    and "\<forall>(i, j) \<in> set (zip is (j0 # is)).
           straddles y (coord ! i) (coord ! j) \<longrightarrow> slope_at x y (coord ! i) (coord ! j) \<noteq> 0"
  shows "ic_loop x y coord is j0 c =
           (c \<noteq> odd (length (filter
              (\<lambda>(i, j). straddles y (coord ! i) (coord ! j) \<and> counted_side x y (coord ! i) (coord ! j))
              (zip is (j0 # is)))))"
  using assms
proof (induction "is" arbitrary: j0 c)
  case Nil
  then show ?case by simp
next
  case (Cons i "is")
  have no_corner: "\<not> (x = fst (coord ! i) \<and> y = snd (coord ! i))"
    using Cons.prems(1) by (auto simp: prod_eq_iff)
  have rest: "\<And>c. ic_loop x y coord is i c =
      (c \<noteq> odd (length (filter
         (\<lambda>(i, j). straddles y (coord ! i) (coord ! j) \<and> counted_side x y (coord ! i) (coord ! j))
         (zip is (i # is)))))"
    using Cons.prems by (intro Cons.IH) auto
  have no_zero: "straddles y (coord ! i) (coord ! j0) \<Longrightarrow> slope_at x y (coord ! i) (coord ! j0) \<noteq> 0"
    using Cons.prems(2) by auto
  show ?case
    using no_corner no_zero by (auto simp: rest straddles_def counted_side_def)
qed

lemma zip_previous:
  "0 < n \<Longrightarrow> zip [0..<n] ((n - 1) # [0..<n]) = map (\<lambda>i. (i, if i = 0 then n - 1 else i - 1)) [0..<n]"
  by (rule nth_equalityI) (auto simp: nth_Cons')

text \<open>
  Claim C5. For a query point that is no vertex of the polygon and on which the slope
  test vanishes on no straddling edge, \<open>is_in_contour\<close> answers true exactly when
  the number of edges that straddle the query's \<open>y\<close> (one endpoint strictly above,
  the other not) and pass the signed-area test is odd.
\<close>

theorem is_in_contour_parity:
  assumes "\<forall>p \<in> set coord. p \<noteq> (x, y)"
    and "\<forall>(p, q) \<in> set (edges coord). straddles y p q \<longrightarrow> slope_at x y p q \<noteq> 0"
  shows "is_in_contour x y coord = odd (crossings x y coord)"
proof (cases "coord = []")
  case True
  then show ?thesis by (simp add: is_in_contour_def crossings_def edges_def)
next
  case False
  let ?n = "length coord"
  let ?counted = "\<lambda>(i, j). straddles y (coord ! i) (coord ! j) \<and> counted_side x y (coord ! i) (coord ! j)"
  have n: "0 < ?n" using False by simp
  have corners: "\<forall>i \<in> set [0..<?n]. (x, y) \<noteq> coord ! i"
    using assms(1) by auto
  have slopes: "\<forall>(i, j) \<in> set (zip [0..<?n] ((?n - 1) # [0..<?n])).
      straddles y (coord ! i) (coord ! j) \<longrightarrow> slope_at x y (coord ! i) (coord ! j) \<noteq> 0"
    using assms(2) unfolding zip_previous[OF n] edges_def by auto
  have "length (filter ?counted (zip [0..<?n] ((?n - 1) # [0..<?n]))) = crossings x y coord"
    unfolding zip_previous[OF n] crossings_def edges_def filter_map length_map
    by (rule arg_cong[where f = length], rule filter_cong) auto
  then show ?thesis
    unfolding is_in_contour_def Let_def ic_loop_parity[OF corners slopes] by simp
qed

text \<open>The centre of the square: one counted crossing, inside.\<close>

theorem is_in_contour_parity_witness:
  "is_in_contour 0 0 unit_square = odd (crossings 0 0 unit_square) \<and> crossings 0 0 unit_square = 1"
proof -
  have corners: "\<forall>p \<in> set unit_square. p \<noteq> (0, 0)"
    by (simp add: unit_square_def)
  have slopes: "\<forall>(p, q) \<in> set (edges unit_square). straddles 0 p q \<longrightarrow> slope_at 0 0 p q \<noteq> 0"
    by (simp add: unit_square_def edges_def upt_rec slope_at_def)
  have "crossings 0 0 unit_square = 1"
    by (simp add: crossings_def unit_square_def edges_def upt_rec slope_at_def straddles_def
        counted_side_def)
  with is_in_contour_parity[OF corners slopes] show ?thesis by simp
qed

section \<open>Vertices, boundary points and the square\<close>

lemma ic_loop_vertex: "k \<in> set is \<Longrightarrow> coord ! k = (x, y) \<Longrightarrow> ic_loop x y coord is j c"
  by (induction "is" arbitrary: j c) auto

lemma is_in_contour_vertex: "(x, y) \<in> set coord \<Longrightarrow> is_in_contour x y coord"
  unfolding is_in_contour_def Let_def
  by (auto simp: in_set_conv_nth intro!: ic_loop_vertex)

lemma ic_loop_zero_slope:
  "\<exists>(i, j) \<in> set (zip is (j0 # is)).
      straddles y (coord ! i) (coord ! j) \<and> slope_at x y (coord ! i) (coord ! j) = 0 \<Longrightarrow>
   ic_loop x y coord is j0 c = True"
proof (induction "is" arbitrary: j0 c)
  case Nil
  then show ?case by simp
next
  case (Cons i "is")
  have tail: "ic_loop x y coord is i c' = True"
    if "\<exists>(i', j) \<in> set (zip is (i # is)).
          straddles y (coord ! i') (coord ! j) \<and> slope_at x y (coord ! i') (coord ! j) = 0" for c'
    using that by (rule Cons.IH)
  show ?case
    using Cons.prems tail by (auto simp: straddles_def)
qed

text \<open>
  A point on an edge that straddles its \<open>y\<close> (an edge that is not horizontal, the
  point not at its upper end) is reported inside.
\<close>

lemma is_in_contour_on_straddling_edge:
  assumes "(p, q) \<in> set (edges coord)" and "straddles y p q" and "slope_at x y p q = 0"
  shows "is_in_contour x y coord"
proof -
  let ?n = "length coord"
  have n: "0 < ?n" using assms(1) by (auto simp: edges_def)
  obtain i where i: "i < ?n" and p: "p = coord ! i"
    and q: "q = coord ! (if i = 0 then ?n - 1 else i - 1)"
    using assms(1) by (auto simp: edges_def)
  have "(i, if i = 0 then ?n - 1 else i - 1) \<in> set (zip [0..<?n] ((?n - 1) # [0..<?n]))"
    unfolding zip_previous[OF n] using i by force
  then have "\<exists>(i, j) \<in> set (zip [0..<?n] ((?n - 1) # [0..<?n])).
      straddles y (coord ! i) (coord ! j) \<and> slope_at x y (coord ! i) (coord ! j) = 0"
    using assms(2,3) p q by (intro bexI[where x = "(i, if i = 0 then ?n - 1 else i - 1)"]) simp_all
  then show ?thesis
    unfolding is_in_contour_def Let_def by (simp add: ic_loop_zero_slope)
qed

lemma is_in_contour_square_examples:
  "is_in_contour 0 0 unit_square" "\<not> is_in_contour 2 2 unit_square" "is_in_contour 1 0 unit_square"
  by (simp_all add: is_in_contour_def unit_square_def slope_at_def)

text \<open>
  The bottom edge of the square is horizontal too. No slope test vanishes on it either,
  but the right-hand edge straddles \<open>y = -1\<close> and is counted once.
\<close>

lemma is_in_contour_bottom_edge: "is_in_contour 0 (-1) unit_square"
  by (simp add: is_in_contour_def unit_square_def slope_at_def)

text \<open>
  Claim C6. The claim asks for true on every vertex and on every point of an edge. The
  vertices and the three examples of the square are as claimed (the lemmas above). A
  point of a horizontal edge is different: both endpoints of the edge are on the query's
  \<open>y\<close>, neither is strictly above, the edge does not straddle and its slope test is
  never run. On the top edge of the square, from \<open>(1, 1)\<close> to \<open>(-1, 1)\<close>, no other
  edge straddles either, and the point \<open>(0, 1)\<close> is reported outside, while the
  matching point of the bottom edge is reported inside.
\<close>

theorem is_in_contour_top_edge_outside:
  "\<not> is_in_contour 0 1 unit_square"
  by (simp add: is_in_contour_def unit_square_def slope_at_def)

section \<open>The grid is the filtered lattice\<close>






section \<open>The score field is the distance to the nearest target\<close>

lemma fold_update_upt:
  "k \<le> length d \<Longrightarrow> fold (\<lambda>i d. d[i := f i]) [0..<k] d = map f [0..<k] @ drop k d"
proof (induction k)
  case 0
  then show ?case by simp
next
  case (Suc k)
  then have "k < length d" by simp
  then have "(map f [0..<k] @ drop k d)[k := f k] = map f [0..<k] @ f k # drop (Suc k) d"
    by (simp add: list_update_append upd_conv_take_nth_drop)
  with Suc show ?case by simp
qed

lemma py_min_Min: "vs \<noteq> [] \<Longrightarrow> py_min vs = Inr (Min (set vs))"
proof -
  have m: "(\<lambda>a m. if a < m then a else m) = (min :: real \<Rightarrow> real \<Rightarrow> real)"
    by (intro ext) (simp add: min_def)
  assume "vs \<noteq> []"
  then obtain v xs where "vs = v # xs" by (cases vs) auto
  then show ?thesis by (simp add: m Min.set_eq_fold[symmetric])
qed

lemma score_of_node_dists:
  "score_of_node node nodes = py_min (map (euclid node) (targets_of nodes))"
  by (simp add: score_of_node_def Let_def fold_update_upt targets_of_def euclid_def comp_def)

lemma score_of_node_Min:
  "targets_of nodes \<noteq> [] \<Longrightarrow>
   score_of_node node nodes = Inr (Min (euclid node ` set (targets_of nodes)))"
  by (simp add: score_of_node_dists py_min_Min)

lemma score_of_node_empty:
  "targets_of nodes = [] \<Longrightarrow> score_of_node node nodes = Inl ValueError"
  by (simp add: score_of_node_dists)

lemma csa_loop_ok:
  "targets_of nodes \<noteq> [] \<Longrightarrow>
   csa_loop is grid nodes S =
     Inr (fold (\<lambda>i d. d[i := Min (euclid (grid ! i) ` set (targets_of nodes))]) is S)"
  by (induction "is" arbitrary: S) (simp_all add: score_of_node_Min)

lemma calculate_score_array_ok:
  assumes "targets_of nodes \<noteq> []"
  shows "calculate_score_array grid nodes =
           Inr (map (\<lambda>p. Min (euclid p ` set (targets_of nodes))) grid)"
proof -
  have "map (\<lambda>i. Min (euclid (grid ! i) ` set (targets_of nodes))) [0..<length grid]
      = map (\<lambda>p. Min (euclid p ` set (targets_of nodes))) grid"
    by (rule nth_equalityI) simp_all
  then show ?thesis
    by (simp add: calculate_score_array_def Let_def csa_loop_ok[OF assms] fold_update_upt)
qed

lemma calculate_score_array_fail:
  assumes "targets_of nodes = []" and "grid \<noteq> []"
  shows "calculate_score_array grid nodes = Inl ValueError"
proof -
  have "[0..<length grid] = 0 # [1..<length grid]"
    using assms(2) by (simp add: upt_conv_Cons)
  then show ?thesis
    by (simp add: calculate_score_array_def Let_def score_of_node_empty[OF assms(1)])
qed

lemma calculate_score_array_no_grid: "calculate_score_array [] nodes = Inr []"
  by (simp add: calculate_score_array_def)

text \<open>
  Claim C4, as the code has it. With at least one target the field has one entry per
  grid point, the least Euclidean distance from that point to a target. The scorer
  fails, with the \<^verbatim>\<open>ValueError\<close> of \<^verbatim>\<open>min\<close>, exactly when there is no
  target and the grid has a point; on an empty grid it returns the empty field whatever
  the targets are. It returns no made-up score in any case.
\<close>

theorem calculate_score_array_field:
  "(targets_of nodes \<noteq> [] \<longrightarrow>
      calculate_score_array grid nodes =
        Inr (map (\<lambda>p. Min (euclid p ` set (targets_of nodes))) grid))
   \<and> (targets_of nodes = [] \<and> grid \<noteq> [] \<longrightarrow> calculate_score_array grid nodes = Inl ValueError)
   \<and> (grid = [] \<longrightarrow> calculate_score_array grid nodes = Inr [])
   \<and> ((\<exists>e. calculate_score_array grid nodes = Inl e) \<longleftrightarrow> (targets_of nodes = [] \<and> grid \<noteq> []))"
proof -
  have ok: "targets_of nodes \<noteq> [] \<longrightarrow>
      calculate_score_array grid nodes =
        Inr (map (\<lambda>p. Min (euclid p ` set (targets_of nodes))) grid)"
    by (simp add: calculate_score_array_ok)
  have fail: "targets_of nodes = [] \<and> grid \<noteq> [] \<longrightarrow> calculate_score_array grid nodes = Inl ValueError"
    by (simp add: calculate_score_array_fail)
  have none: "grid = [] \<longrightarrow> calculate_score_array grid nodes = Inr []"
    by (simp add: calculate_score_array_no_grid)
  have "(\<exists>e. calculate_score_array grid nodes = Inl e) \<longleftrightarrow> (targets_of nodes = [] \<and> grid \<noteq> [])"
  proof (cases "targets_of nodes = []")
    case True
    then show ?thesis using fail none by (cases "grid = []") auto
  next
    case False
    then show ?thesis using ok by auto
  qed
  with ok fail none show ?thesis by blast
qed

text \<open>
  Two grid points scored against the targets \<open>(0, 1)\<close> and \<open>(4, 0)\<close>; one grid
  point and no target; no grid point and no target.
\<close>

theorem calculate_score_array_field_witness:
  "calculate_score_array [(0, 0), (0, 3)] [0, 1, 4, 0] = Inr [1, 2]
   \<and> calculate_score_array [(0, 0)] [] = Inl ValueError
   \<and> calculate_score_array [] [0, 1] = Inr []"
proof -
  have "calculate_score_array [(0, 0), (0, 3)] [0, 1, 4, 0] = Inr [1, 2]"
    using calculate_score_array_field[where nodes = "[0, 1, 4, 0]" and grid = "[(0, 0), (0, 3)]"]
    by (simp add: targets_of_def euclid_def upt_rec)
  moreover have "calculate_score_array [(0, 0)] [] = Inl ValueError"
    using calculate_score_array_field[where nodes = "[]" and grid = "[(0, 0)]"]
    by (simp add: targets_of_def)
  moreover have "calculate_score_array [] [0, 1] = Inr []"
    using calculate_score_array_field[where nodes = "[0, 1]" and grid = "[]"] by simp
  ultimately show ?thesis by simp
qed

text \<open>
  The claim as stated has the scorer fail whenever the target set is empty. With an
  empty grid the loop never calls \<^verbatim>\<open>score_of_node\<close> and the empty field comes
  back.
\<close>

theorem calculate_score_array_empty_targets_counterexample:
  "targets_of [] = [] \<and> calculate_score_array [] [] = Inr []"
  by (simp add: targets_of_def calculate_score_array_def)

section \<open>Pruning removes the same indices from grid and scores\<close>

lemma fold_collect_indices:
  "fold (\<lambda>i acc. if P i then acc @ [i] else acc) is acc = acc @ filter P is"
  by (induction "is" arbitrary: acc) simp_all

lemma zip_filter_swap:
  "map snd (filter (\<lambda>ka. Q (fst ka)) (zip ks xs)) = map fst (filter (\<lambda>p. Q (snd p)) (zip xs ks))"
proof (induction xs arbitrary: ks)
  case Nil
  then show ?case by simp
next
  case (Cons x xs)
  then show ?case by (cases ks) simp_all
qed

lemma np_delete_nths:
  assumes "\<forall>k \<in> set obj. k < length arr"
  shows "np_delete arr obj = Inr (nths arr (- set obj))"
proof -
  have "\<not> (\<exists>k \<in> set obj. length arr \<le> k)"
    using assms by auto
  then show ?thesis
    by (simp add: np_delete_def nths_def zip_filter_swap[where Q = "\<lambda>k. k \<notin> set obj"])
qed

lemma nths_cong_below:
  "(\<And>i. i < length xs \<Longrightarrow> (i \<in> A) = (i \<in> B)) \<Longrightarrow> nths xs A = nths xs B"
  unfolding nths_def
  by (rule arg_cong[where f = "map fst"], rule filter_cong) (auto simp: in_set_zip)

lemma remove_points_grid_nths:
  assumes "length scores = length grid"
  shows "remove_points_grid ls vert grid scores =
           Inr (nths grid {i. \<not> too_close (0.1 * ls) vert (grid ! i)},
                nths scores {i. \<not> too_close (0.1 * ls) vert (grid ! i)})"
proof -
  define r where "r = 0.1 * ls"
  let ?rm = "filter (\<lambda>i. too_close r vert (grid ! i)) [0..<length grid]"
  have in_grid: "\<forall>k \<in> set ?rm. k < length grid" by simp
  have in_scores: "\<forall>k \<in> set ?rm. k < length scores" using assms by simp
  have g: "nths grid (- set ?rm) = nths grid {i. \<not> too_close r vert (grid ! i)}"
    by (rule nths_cong_below) simp
  have s: "nths scores (- set ?rm) = nths scores {i. \<not> too_close r vert (grid ! i)}"
    by (rule nths_cong_below) (simp add: assms)
  have "remove_points_grid ls vert grid scores =
      (case np_delete grid ?rm of
         Inl e \<Rightarrow> Inl e
       | Inr grid' \<Rightarrow>
           (case np_delete scores ?rm of Inl e \<Rightarrow> Inl e | Inr scores' \<Rightarrow> Inr (grid', scores')))"
    unfolding remove_points_grid_def Let_def fold_collect_indices append_Nil r_def ..
  also have "\<dots> = Inr (nths grid {i. \<not> too_close r vert (grid ! i)},
                      nths scores {i. \<not> too_close r vert (grid ! i)})"
    unfolding np_delete_nths[OF in_grid] np_delete_nths[OF in_scores] g s by simp
  finally show ?thesis unfolding r_def .
qed




section \<open>The index of the minimum\<close>

lemma argmin_from_invariant:
  assumes "best < length pre" and "v = pre ! best"
    and "\<forall>i < length pre. v \<le> pre ! i" and "\<forall>i < best. v < pre ! i"
  shows "argmin_from as (length pre) best v < length (pre @ as)
       \<and> (\<forall>i < length (pre @ as). (pre @ as) ! argmin_from as (length pre) best v \<le> (pre @ as) ! i)
       \<and> (\<forall>i < argmin_from as (length pre) best v.
             (pre @ as) ! argmin_from as (length pre) best v < (pre @ as) ! i)"
  using assms
proof (induction as arbitrary: pre best v)
  case Nil
  then show ?case by simp
next
  case (Cons a as)
  show ?case
  proof (cases "a < v")
    case True
    have "argmin_from as (length (pre @ [a])) (length pre) a < length ((pre @ [a]) @ as)
       \<and> (\<forall>i < length ((pre @ [a]) @ as).
             ((pre @ [a]) @ as) ! argmin_from as (length (pre @ [a])) (length pre) a
               \<le> ((pre @ [a]) @ as) ! i)
       \<and> (\<forall>i < argmin_from as (length (pre @ [a])) (length pre) a.
             ((pre @ [a]) @ as) ! argmin_from as (length (pre @ [a])) (length pre) a
               < ((pre @ [a]) @ as) ! i)"
    proof (rule Cons.IH)
      show "length pre < length (pre @ [a])" by simp
      show "a = (pre @ [a]) ! length pre" by simp
      show "\<forall>i < length (pre @ [a]). a \<le> (pre @ [a]) ! i"
        using True Cons.prems(3) by (auto simp: nth_append less_Suc_eq)
      show "\<forall>i < length pre. a < (pre @ [a]) ! i"
        using True Cons.prems(3) by (auto simp: nth_append)
    qed
    with True show ?thesis by simp
  next
    case False
    have "argmin_from as (length (pre @ [a])) best v < length ((pre @ [a]) @ as)
       \<and> (\<forall>i < length ((pre @ [a]) @ as).
             ((pre @ [a]) @ as) ! argmin_from as (length (pre @ [a])) best v
               \<le> ((pre @ [a]) @ as) ! i)
       \<and> (\<forall>i < argmin_from as (length (pre @ [a])) best v.
             ((pre @ [a]) @ as) ! argmin_from as (length (pre @ [a])) best v
               < ((pre @ [a]) @ as) ! i)"
    proof (rule Cons.IH)
      show "best < length (pre @ [a])" using Cons.prems(1) by simp
      show "v = (pre @ [a]) ! best" using Cons.prems(1,2) by (simp add: nth_append)
      show "\<forall>i < length (pre @ [a]). v \<le> (pre @ [a]) ! i"
        using False Cons.prems(3) by (auto simp: nth_append less_Suc_eq)
      show "\<forall>i < best. v < (pre @ [a]) ! i"
        using Cons.prems(1,4) by (auto simp: nth_append)
    qed
    with False show ?thesis by simp
  qed
qed

text \<open>
  \<open>np_argmin\<close> is the index of the global minimum, the lowest one on a tie.
\<close>

lemma np_argmin_first_minimum:
  assumes "np_argmin a = Inr m"
  shows "m < length a \<and> (\<forall>i < length a. a ! m \<le> a ! i) \<and> (\<forall>i < m. a ! m < a ! i)"
proof (cases a)
  case Nil
  with assms show ?thesis by (simp add: np_argmin_def)
next
  case (Cons v vs)
  have m: "m = argmin_from vs (length [v]) 0 v"
    using assms Cons by (simp add: np_argmin_def)
  show ?thesis
    unfolding m Cons using argmin_from_invariant[of 0 "[v]" v vs] by simp
qed

lemma np_argmin_empty: "np_argmin a = Inl e \<longleftrightarrow> a = [] \<and> e = ValueError"
  by (cases a) (auto simp: np_argmin_def)

section \<open>The recoverer, statement by statement\<close>

lemma getitem_in_range:
  "0 \<le> k \<Longrightarrow> k < int (length arr) \<Longrightarrow> getitem arr k = Inr (arr ! nat k)"
  by (simp add: getitem_def)

lemma getitem_past_end: "int (length arr) \<le> k \<Longrightarrow> getitem arr k = Inl IndexError"
  by (simp add: getitem_def)

lemma getitem_error: "getitem arr k = Inl e \<Longrightarrow> e = IndexError"
  by (auto simp: getitem_def split: if_splits)

lemma scan_body_frame:
  "scores_arr (scan_body c G i h) = scores_arr h" "grid_arr (scan_body c G i h) = grid_arr h"
  by (simp_all add: scan_body_def)

lemma scan_frame:
  "scores_arr (fold (scan_body c G) is h) = scores_arr h
   \<and> grid_arr (fold (scan_body c G) is h) = grid_arr h"
  by (induction "is" arbitrary: h) (simp_all add: scan_body_frame)

lemma scan_labels:
  "local_domain_label (fold (scan_body c G) is h) =
     local_domain_label h @
     concat (map (\<lambda>i. if fst (grid_arr h ! i) = fst c \<and> \<bar>snd (grid_arr h ! i) - snd c\<bar> \<le> 1.1 * G
                        then [int i - 1, int i, int i + 1] else []) is)"
proof (induction "is" arbitrary: h)
  case Nil
  then show ?case by simp
next
  case (Cons i "is")
  show ?case
    unfolding fold_Cons comp_apply Cons.IH scan_body_frame
    by (simp add: scan_body_def)
qed

lemma scan_collect:
  "local_domain_label (fold (scan_body c G) [0..<length grid]
      \<lparr>scores_arr = scores, grid_arr = grid, local_domain_label = []\<rparr>) = collect_labels grid c G"
  unfolding scan_labels collect_labels_def by simp

lemma del_label_frame:
  "del_label h = Inr h' \<Longrightarrow> scores_arr h' = scores_arr h \<and> grid_arr h' = grid_arr h"
  by (auto simp: del_label_def split: if_splits)

text \<open>
  Claim C9. \<open>place_inner_vertex\<close> leaves the scores and the grid as it found them:
  whatever it returns or raises, the only object it changes is its own label list.
\<close>

theorem place_inner_vertex_frame:
  "scores_arr (snd (place_inner_vertex_h ls h)) = scores_arr h
   \<and> grid_arr (snd (place_inner_vertex_h ls h)) = grid_arr h"
proof (cases "np_argmin (scores_arr h)")
  case (Inl e)
  then show ?thesis by (simp add: place_inner_vertex_h_def)
next
  case m: (Inr m)
  show ?thesis
  proof (cases "infer_gscale (grid_arr h) m")
    case (Inl e)
    then show ?thesis by (simp add: place_inner_vertex_h_def m)
  next
    case (Inr cG)
    obtain c G where cG: "cG = (c, G)" by (cases cG)
    define h1 where
      "h1 = fold (scan_body c G) [0..<length (grid_arr h)] (h\<lparr>local_domain_label := []\<rparr>)"
    have h1: "scores_arr h1 = scores_arr h \<and> grid_arr h1 = grid_arr h"
      unfolding h1_def
      using scan_frame[of c G "[0..<length (grid_arr h)]" "h\<lparr>local_domain_label := []\<rparr>"]
      by simp
    have run: "place_inner_vertex_h ls h =
        (case del_label h1 of
           Inl e \<Rightarrow> (Inl e, h1)
         | Inr h2 \<Rightarrow>
        (case gather (scores_arr h2) (local_domain_label h2) of
           Inl e \<Rightarrow> (Inl e, h2)
         | Inr local_domain_scores \<Rightarrow>
        (case wsum [0, 1, 2, 5, 6, 7] local_domain_scores (local_domain_label h2) (grid_arr h2)
                fst (0, 0) of
           Inl e \<Rightarrow> (Inl e, h2)
         | Inr (xsum, xsum_score) \<Rightarrow>
        (case wsum [0, 3, 5, 2, 4, 7] local_domain_scores (local_domain_label h2) (grid_arr h2)
                snd (0, 0) of
           Inl e \<Rightarrow> (Inl e, h2)
         | Inr (ysum, ysum_score) \<Rightarrow>
             (Inr (fdiv xsum xsum_score, fdiv ysum ysum_score), h2)))))"
      unfolding place_inner_vertex_h_def h1_def by (simp only: m Inr cG sum.case prod.case Let_def)
    show ?thesis
    proof (cases "del_label h1")
      case (Inl e)
      then show ?thesis using h1 by (simp add: run)
    next
      case h2: (Inr h2)
      have "snd (place_inner_vertex_h ls h) = h2"
        unfolding run h2 by (simp split: sum.splits prod.splits)
      then show ?thesis using del_label_frame[OF h2] h1 by simp
    qed
  qed
qed

text \<open>A successful run on the four-by-three lattice: the arrays come back as given.\<close>

theorem place_inner_vertex_frame_witness:
  "scores_arr (snd (place_inner_vertex_h 1
       \<lparr>scores_arr = scores_inner, grid_arr = grid_4x3, local_domain_label = [7]\<rparr>)) = scores_inner
   \<and> grid_arr (snd (place_inner_vertex_h 1
       \<lparr>scores_arr = scores_inner, grid_arr = grid_4x3, local_domain_label = [7]\<rparr>)) = grid_4x3"
  using place_inner_vertex_frame
    [of 1 "\<lparr>scores_arr = scores_inner, grid_arr = grid_4x3, local_domain_label = [7]\<rparr>"]
  by simp

text \<open>The function without the heap: what each statement contributes to the result.\<close>

lemma place_inner_vertex_unfold:
  "place_inner_vertex scores grid ls =
     (case np_argmin scores of
        Inl e \<Rightarrow> Inl e
      | Inr m \<Rightarrow>
     (case infer_gscale grid m of
        Inl e \<Rightarrow> Inl e
      | Inr (coord_min, Gscale) \<Rightarrow>
     (let labels = collect_labels grid coord_min Gscale in
      if length labels \<le> 4 then Inl IndexError
      else let nb = take 4 labels @ drop 5 labels in
     (case gather scores nb of
        Inl e \<Rightarrow> Inl e
      | Inr lds \<Rightarrow>
     (case wsum [0, 1, 2, 5, 6, 7] lds nb grid fst (0, 0) of
        Inl e \<Rightarrow> Inl e
      | Inr (xsum, xsum_score) \<Rightarrow>
     (case wsum [0, 3, 5, 2, 4, 7] lds nb grid snd (0, 0) of
        Inl e \<Rightarrow> Inl e
      | Inr (ysum, ysum_score) \<Rightarrow> Inr (fdiv xsum xsum_score, fdiv ysum ysum_score)))))))"
proof -
  let ?h = "\<lparr>scores_arr = scores, grid_arr = grid, local_domain_label = []\<rparr>"
  let ?scan = "\<lambda>c G. fold (scan_body c G) [0..<length grid] ?h"
  have frame: "scores_arr (?scan c G) = scores \<and> grid_arr (?scan c G) = grid" for c G
    using scan_frame[of c G "[0..<length grid]" ?h] by simp
  have del: "del_label (?scan c G) =
      (if length (collect_labels grid c G) \<le> 4 then Inl IndexError
       else Inr ((?scan c G)\<lparr>local_domain_label :=
               take 4 (collect_labels grid c G) @ drop 5 (collect_labels grid c G)\<rparr>))" for c G
    by (simp add: del_label_def scan_collect)
  show ?thesis
    unfolding place_inner_vertex_def place_inner_vertex_h_def Let_def
    by (simp add: del frame split: sum.splits prod.splits)
qed

lemma infer_gscale_in_range:
  "Suc m < length grid \<Longrightarrow>
   infer_gscale grid m = Inr (grid ! m, \<bar>fst (grid ! m) - fst (grid ! Suc m)\<bar>)"
  by (simp add: infer_gscale_def getitem_def nat_add_distrib)

lemma infer_gscale_last:
  "Suc m = length grid \<Longrightarrow> infer_gscale grid m = Inl IndexError"
  by (auto simp: infer_gscale_def getitem_def)

text \<open>
  Claim C10. When the minimum of the scores sits at the last index of the grid, reading
  \<open>grid[m + 1]\<close> for the lattice spacing is one position past the end and the call
  ends in \<^verbatim>\<open>IndexError\<close>; when a grid entry follows the minimum, the read is in
  bounds and yields the spacing.
\<close>

theorem place_inner_vertex_last_index:
  assumes "np_argmin scores = Inr m"
  shows "(Suc m = length grid \<longrightarrow>
            getitem grid (int m + 1) = Inl IndexError
            \<and> place_inner_vertex scores grid ls = Inl IndexError)
       \<and> (Suc m < length grid \<longrightarrow>
            getitem grid (int m + 1) = Inr (grid ! Suc m)
            \<and> infer_gscale grid m = Inr (grid ! m, \<bar>fst (grid ! m) - fst (grid ! Suc m)\<bar>))"
proof -
  have "place_inner_vertex scores grid ls = Inl IndexError" if "Suc m = length grid"
    unfolding place_inner_vertex_unfold using assms infer_gscale_last[OF that] by simp
  moreover have "getitem grid (int m + 1) = Inl IndexError" if "Suc m = length grid"
    using that by (intro getitem_past_end) simp
  moreover have "getitem grid (int m + 1) = Inr (grid ! Suc m)" if "Suc m < length grid"
    using that by (simp add: getitem_def nat_add_distrib)
  ultimately show ?thesis
    using infer_gscale_in_range by blast
qed

text \<open>
  Three grid points in a row: with the minimum at the end the call fails, with the
  minimum at the start the spacing is read from the second point.
\<close>

theorem place_inner_vertex_last_index_witness:
  "place_inner_vertex [1, 1, 1 / 2] [(0, 0), (1, 0), (2, 0)] 1 = Inl IndexError
   \<and> infer_gscale [(0, 0), (1, 0), (2, 0)] 0 = Inr ((0, 0), 1)"
proof -
  have last: "np_argmin [1, 1, 1 / 2] = Inr 2"
    by (simp add: np_argmin_def)
  have first: "np_argmin [1 / 2, 1, 1] = Inr 0"
    by (simp add: np_argmin_def)
  have "place_inner_vertex [1, 1, 1 / 2] [(0, 0), (1, 0), (2, 0)] 1 = Inl IndexError"
    using place_inner_vertex_last_index[OF last, of "[(0, 0), (1, 0), (2, 0)]" 1] by simp
  moreover have "infer_gscale [(0, 0), (1, 0), (2, 0)] 0 = Inr ((0, 0), 1)"
    using place_inner_vertex_last_index[OF first, of "[(0, 0), (1, 0), (2, 0)]" 1] by simp
  ultimately show ?thesis by simp
qed





lemma gather_in_range:
  "\<forall>k \<in> set ks. 0 \<le> k \<and> k < int (length arr) \<Longrightarrow> gather arr ks = Inr (map (\<lambda>k. arr ! nat k) ks)"
  by (induction ks) (simp_all add: getitem_in_range)

lemma wsum_error: "wsum is lds ldl grid c acc = Inl e \<Longrightarrow> e = IndexError"
  by (induction "is" arbitrary: acc) (auto split: sum.splits dest: getitem_error)


lemma wsum_ok:
  "\<forall>i \<in> set is. i < length lds \<and> i < length ldl \<and> 0 \<le> ldl ! i \<and> ldl ! i < int (length grid) \<Longrightarrow>
   wsum is lds ldl grid c acc =
     Inr (fst acc + (\<Sum>i\<leftarrow>is. lds ! i * c (grid ! nat (ldl ! i))), snd acc + (\<Sum>i\<leftarrow>is. lds ! i))"
  by (induction "is" arbitrary: acc) (simp_all add: getitem_in_range algebra_simps)

lemma neighbourhood_length:
  "length (neighbourhood grid m) =
     (let n = length (collect_labels grid (grid ! m) \<bar>fst (grid ! m) - fst (grid ! Suc m)\<bar>)
      in if n \<le> 4 then n else n - 1)"
  by (auto simp: neighbourhood_def Let_def)





section \<open>The recovered point is the pair of weighted barycentres\<close>

lemma neighbourhood_inner: "neighbourhood grid_4x3 5 = [0, 1, 2, 4, 6, 8, 9, 10]"
  by (simp add: neighbourhood_def collect_labels_def grid_4x3_def upt_rec)

text \<open>
  Claim C1. Under the 8-neighbour precondition \<open>place_inner_vertex\<close> returns
  \<open>(xbar, ybar)\<close>: \<open>xbar\<close> is the sum of \<open>score * x\<close> over the neighbourhood
  entries at list positions 0, 1, 2, 5, 6, 7 divided by the sum of their scores, and
  \<open>ybar\<close> the same with \<open>y\<close> over the positions 0, 3, 5, 2, 4, 7. The weights are
  the scores themselves. A zero sum of weights gives a non-finite coordinate.
\<close>

theorem place_inner_vertex_barycentre:
  assumes "eight_neighbours scores grid m"
  shows "place_inner_vertex scores grid ls =
           Inr (barycentre [0, 1, 2, 5, 6, 7] (neighbourhood grid m) scores grid fst,
                barycentre [0, 3, 5, 2, 4, 7] (neighbourhood grid m) scores grid snd)"
proof -
  define nb where "nb = neighbourhood grid m"
  define labels where
    "labels = collect_labels grid (grid ! m) \<bar>fst (grid ! m) - fst (grid ! Suc m)\<bar>"
  have m: "np_argmin scores = Inr m" and inside: "Suc m < length grid"
    and len: "length nb = 8"
    and range: "\<forall>l \<in> set nb. 0 \<le> l \<and> l < int (length grid) \<and> l < int (length scores)"
    using assms by (simp_all add: eight_neighbours_def nb_def)
  have nb: "nb = take 4 labels @ drop 5 labels"
    by (simp add: nb_def neighbourhood_def labels_def Let_def)
  have long: "\<not> length labels \<le> 4"
    using len unfolding nb by auto
  define lds where "lds = map (\<lambda>l. scores ! nat l) nb"
  have gather: "gather scores nb = Inr lds"
    unfolding lds_def using range by (intro gather_in_range) simp
  have slots: "\<forall>i \<in> set ps. i < length lds \<and> i < length nb \<and> 0 \<le> nb ! i \<and> nb ! i < int (length grid)"
    if "\<forall>i \<in> set ps. i < 8" for ps
    using that range len by (auto simp: lds_def)
  have sums: "wsum ps lds nb grid c (0, 0) =
      Inr (\<Sum>k\<leftarrow>ps. scores ! nat (nb ! k) * c (grid ! nat (nb ! k)), \<Sum>k\<leftarrow>ps. scores ! nat (nb ! k))"
    if ps: "\<forall>i \<in> set ps. i < 8" for ps c
  proof -
    have a: "(\<Sum>i\<leftarrow>ps. lds ! i * c (grid ! nat (nb ! i)))
        = (\<Sum>k\<leftarrow>ps. scores ! nat (nb ! k) * c (grid ! nat (nb ! k)))"
      using ps len by (intro arg_cong[where f = sum_list] map_cong) (simp_all add: lds_def)
    have b: "(\<Sum>i\<leftarrow>ps. lds ! i) = (\<Sum>k\<leftarrow>ps. scores ! nat (nb ! k))"
      using ps len by (intro arg_cong[where f = sum_list] map_cong) (simp_all add: lds_def)
    show ?thesis
      unfolding wsum_ok[OF slots[OF ps]] a b by simp
  qed
  have xs: "\<forall>i \<in> set [0, 1, 2, 5, 6, 7 :: nat]. i < 8" by simp
  have ys: "\<forall>i \<in> set [0, 3, 5, 2, 4, 7 :: nat]. i < 8" by simp
  have "place_inner_vertex scores grid ls =
      (case gather scores nb of
         Inl e \<Rightarrow> Inl e
       | Inr lds \<Rightarrow>
      (case wsum [0, 1, 2, 5, 6, 7] lds nb grid fst (0, 0) of
         Inl e \<Rightarrow> Inl e
       | Inr (xsum, xsum_score) \<Rightarrow>
      (case wsum [0, 3, 5, 2, 4, 7] lds nb grid snd (0, 0) of
         Inl e \<Rightarrow> Inl e
       | Inr (ysum, ysum_score) \<Rightarrow> Inr (fdiv xsum xsum_score, fdiv ysum ysum_score))))"
    unfolding place_inner_vertex_unfold nb labels_def
    using long[unfolded labels_def]
    by (simp only: m infer_gscale_in_range[OF inside] sum.case prod.case Let_def if_False)
  also have "\<dots> = Inr (barycentre [0, 1, 2, 5, 6, 7] nb scores grid fst,
                       barycentre [0, 3, 5, 2, 4, 7] nb scores grid snd)"
    unfolding gather sum.case sums[OF xs] sums[OF ys] prod.case barycentre_def ..
  finally show ?thesis unfolding nb_def .
qed

text \<open>
  The minimum at the inner point \<open>(1, 1)\<close> of the four-by-three lattice: the eight
  slots are the eight lattice neighbours, and the heavier scores on the right pull
  \<open>xbar\<close> to \<open>7 / 5\<close>.
\<close>

theorem place_inner_vertex_barycentre_witness:
  "place_inner_vertex scores_inner grid_4x3 1 = Inr (Finite (7 / 5), Finite 1)"
proof -
  have m: "np_argmin scores_inner = Inr 5"
    by (simp add: np_argmin_def scores_inner_def)
  have pre: "eight_neighbours scores_inner grid_4x3 5"
    unfolding eight_neighbours_def neighbourhood_inner
    by (simp add: m) (simp add: grid_4x3_def scores_inner_def)
  have x: "barycentre [0, 1, 2, 5, 6, 7] [0, 1, 2, 4, 6, 8, 9, 10] scores_inner grid_4x3 fst = Finite (7 / 5)"
    by (simp add: barycentre_def fdiv_def grid_4x3_def scores_inner_def)
  have y: "barycentre [0, 3, 5, 2, 4, 7] [0, 1, 2, 4, 6, 8, 9, 10] scores_inner grid_4x3 snd = Finite 1"
    by (simp add: barycentre_def fdiv_def grid_4x3_def scores_inner_def)
  show ?thesis
    unfolding place_inner_vertex_barycentre[OF pre] neighbourhood_inner x y ..
qed

section \<open>The recovery loop\<close>

lemma length_nths_le: "length (nths xs A) \<le> length xs"
proof -
  have "length (filter (\<lambda>p. snd p \<in> A) (zip xs [0..<length xs])) \<le> length (zip xs [0..<length xs])"
    by (rule length_filter_le)
  then show ?thesis by (simp add: nths_def)
qed

lemma length_nths_parallel:
  "length xs = length ys \<Longrightarrow> length (nths xs A) = length (nths ys A)"
  by (simp add: length_nths)

lemma remove_points_grid_lengths:
  assumes "length scores = length grid"
  shows "\<exists>g s. remove_points_grid ls vert grid scores = Inr (g, s)
           \<and> length g = length s \<and> length g \<le> length grid"
  unfolding remove_points_grid_nths[OF assms]
  using length_nths_parallel[OF assms[symmetric]] length_nths_le by blast

lemma cv_body_invariant:
  assumes "length grid = length scores"
    and "cv_body ls i (grid, scores, out) = Inr (grid', scores', out')"
  shows "length grid' = length scores' \<and> length grid' \<le> length grid \<and> length out' = length out"
proof -
  obtain v where v: "place_inner_vertex scores grid ls = Inr v"
    using assms(2) by (auto simp: cv_body_def split: sum.splits)
  obtain g s where rm: "remove_points_grid ls (out[i := v] ! i) grid scores = Inr (g, s)"
    and len: "length g = length s" "length g \<le> length grid"
    using remove_points_grid_lengths[OF assms(1)[symmetric]] by blast
  have "cv_body ls i (grid, scores, out) = Inr (g, s, out[i := v])"
    by (simp add: cv_body_def v rm Let_def)
  with assms(2) len show ?thesis by auto
qed

lemma cv_body_exhausted: "cv_body ls i (grid, [], out) = Inl ValueError"
  by (simp add: cv_body_def place_inner_vertex_unfold np_argmin_def)

lemma cv_loop_append:
  "cv_loop ls (is @ js) st =
     (case cv_loop ls is st of Inl e \<Rightarrow> Inl e | Inr st' \<Rightarrow> cv_loop ls js st')"
  by (induction "is" arbitrary: st) (simp_all split: sum.splits)

lemma cv_after_0:
  "cv_after ls grid scores n 0 = Inr (grid, scores, replicate (nat n) (Finite 0, Finite 0))"
  by (simp add: cv_after_def)

lemma cv_after_Suc:
  "cv_after ls grid scores n (Suc k) =
     (case cv_after ls grid scores n k of Inl e \<Rightarrow> Inl e | Inr st \<Rightarrow> cv_body ls k st)"
  by (simp add: cv_after_def cv_loop_append split: sum.splits)

lemma cv_after_invariant:
  assumes "length grid = length scores"
  shows "cv_after ls grid scores n k = Inr (g, s, out) \<Longrightarrow>
           length g = length s \<and> length g \<le> length grid \<and> length out = nat n"
proof (induction k arbitrary: g s out)
  case 0
  then show ?case using assms by (auto simp: cv_after_0)
next
  case (Suc k)
  then obtain st where st: "cv_after ls grid scores n k = Inr st"
    and step: "cv_body ls k st = Inr (g, s, out)"
    by (auto simp: cv_after_Suc split: sum.splits)
  obtain g0 s0 out0 where st0: "st = (g0, s0, out0)" by (cases st)
  have before: "length g0 = length s0 \<and> length g0 \<le> length grid \<and> length out0 = nat n"
    using Suc.IH st st0 by simp
  with cv_body_invariant[of g0 s0 ls k out0 g s out] step st0 show ?case by simp
qed

lemma cv_after_step:
  assumes "length grid = length scores"
    and "cv_after ls grid scores n (Suc k) = Inr (g', s', out')"
  shows "\<exists>g s out. cv_after ls grid scores n k = Inr (g, s, out)
           \<and> cv_body ls k (g, s, out) = Inr (g', s', out')
           \<and> length g = length s \<and> length g' = length s' \<and> length g' \<le> length g"
proof -
  obtain st where st: "cv_after ls grid scores n k = Inr st"
    and step: "cv_body ls k st = Inr (g', s', out')"
    using assms(2) by (auto simp: cv_after_Suc split: sum.splits)
  obtain g s out where st0: "st = (g, s, out)" by (cases st)
  have before: "length g = length s"
    using cv_after_invariant[OF assms(1)] st st0 by blast
  from cv_body_invariant[OF before step[unfolded st0]] before st step st0 show ?thesis
    by blast
qed

lemma compute_vertices_after:
  "0 \<le> n \<Longrightarrow> compute_vertices ls contour grid scores n =
     (case cv_after ls grid scores n (nat n) of
        Inl e \<Rightarrow> Inl e
      | Inr (grid', scores', out_vertices) \<Rightarrow> Inr out_vertices)"
  by (simp add: compute_vertices_def cv_after_def)

lemma cv_after_failed:
  assumes "cv_after ls grid scores n j = Inl e" and "j \<le> k"
  shows "cv_after ls grid scores n k = Inl e"
proof -
  have "[0..<k] = [0..<j] @ [j..<k]"
    using assms(2) by (metis le_add_diff_inverse upt_add_eq_append zero_le)
  then show ?thesis
    using assms(1) by (simp add: cv_after_def cv_loop_append)
qed

lemma compute_vertices_propagates:
  assumes "j \<le> nat n" and "cv_after ls grid scores n j = Inl e"
  shows "compute_vertices ls contour grid scores n = Inl e"
proof -
  have "0 \<le> n"
  proof (rule ccontr)
    assume "\<not> 0 \<le> n"
    then have "j = 0" using assms(1) by simp
    with assms(2) show False by (simp add: cv_after_0)
  qed
  then show ?thesis
    using cv_after_failed[OF assms(2) assms(1)] by (simp add: compute_vertices_after)
qed

lemma compute_vertices_exhausted:
  assumes "j < nat n" and "cv_after ls grid scores n j = Inr (g, [], out)"
  shows "compute_vertices ls contour grid scores n = Inl ValueError"
proof -
  have "cv_after ls grid scores n (Suc j) = Inl ValueError"
    by (simp add: cv_after_Suc assms(2) cv_body_exhausted)
  moreover have "Suc j \<le> nat n" using assms(1) by simp
  ultimately show ?thesis by (intro compute_vertices_propagates)
qed

lemma compute_vertices_success:
  assumes "length grid = length scores"
    and "compute_vertices ls contour grid scores n = Inr out_vertices"
  shows "0 \<le> n \<and> length out_vertices = nat n
       \<and> (\<exists>g s. cv_after ls grid scores n (nat n) = Inr (g, s, out_vertices))"
proof -
  have n: "0 \<le> n"
    using assms(2) by (auto simp: compute_vertices_def split: if_splits)
  obtain g s where final: "cv_after ls grid scores n (nat n) = Inr (g, s, out_vertices)"
    using assms(2) unfolding compute_vertices_after[OF n]
    by (auto split: sum.splits)
  with cv_after_invariant[OF assms(1) final] n show ?thesis by blast
qed

lemma place_inner_vertex_inner:
  "place_inner_vertex scores_inner grid_4x3 1 = Inr (Finite (7 / 5), Finite 1)"
  by (simp add: place_inner_vertex_unfold np_argmin_def infer_gscale_def getitem_def
      collect_labels_def fdiv_def scores_inner_def grid_4x3_def upt_rec)

lemma remove_points_grid_inner:
  "remove_points_grid 1 (Finite (7 / 5), Finite 1) grid_4x3 scores_inner = Inr (grid_4x3, scores_inner)"
proof -
  have none: "fold (\<lambda>i acc. if too_close (0.1 * 1) (Finite (7 / 5), Finite 1) (grid_4x3 ! i)
                              then acc @ [i] else acc) [0..<length grid_4x3] [] = []"
    by (simp add: too_close_def grid_4x3_def power2_eq_square upt_rec)
  have keep: "np_delete arr [] = Inr arr" for arr :: "'a list"
    by (simp add: np_delete_def map_snd_zip)
  show ?thesis
    unfolding remove_points_grid_def Let_def none keep by simp
qed

lemma cv_body_inner:
  "cv_body 1 0 (grid_4x3, scores_inner, [(Finite 0, Finite 0)]) =
     Inr (grid_4x3, scores_inner, [(Finite (7 / 5), Finite 1)])"
  by (simp add: cv_body_def place_inner_vertex_inner remove_points_grid_inner)

text \<open>
  Claim C2, as the code has it. With grid and scores of the same length at the start:
  each iteration that succeeds leaves them of the same length, and no longer than
  before (the code does not make them shorter every time); the call returns only after
  \<open>nb_inner_v\<close> iterations, with that many rows; a failure of any iteration is the
  failure of the call; and an iteration that starts on exhausted scores fails with the
  \<^verbatim>\<open>ValueError\<close> of \<^verbatim>\<open>np.argmin\<close>.
\<close>

theorem compute_vertices_iterations:
  assumes "length grid = length scores"
  shows "(cv_after ls grid scores n (Suc k) = Inr (g', s', out') \<longrightarrow>
            (\<exists>g s out. cv_after ls grid scores n k = Inr (g, s, out)
               \<and> cv_body ls k (g, s, out) = Inr (g', s', out')
               \<and> length g = length s \<and> length g' = length s' \<and> length g' \<le> length g))
       \<and> (compute_vertices ls contour grid scores n = Inr out_vertices \<longrightarrow>
            0 \<le> n \<and> length out_vertices = nat n
            \<and> (\<exists>g s. cv_after ls grid scores n (nat n) = Inr (g, s, out_vertices)))
       \<and> (j \<le> nat n \<and> cv_after ls grid scores n j = Inl e \<longrightarrow>
            compute_vertices ls contour grid scores n = Inl e)
       \<and> (j < nat n \<and> cv_after ls grid scores n j = Inr (g0, [], out0) \<longrightarrow>
            compute_vertices ls contour grid scores n = Inl ValueError)"
proof (intro conjI impI)
  assume "cv_after ls grid scores n (Suc k) = Inr (g', s', out')"
  then show "\<exists>g s out. cv_after ls grid scores n k = Inr (g, s, out)
      \<and> cv_body ls k (g, s, out) = Inr (g', s', out')
      \<and> length g = length s \<and> length g' = length s' \<and> length g' \<le> length g"
    by (rule cv_after_step[OF assms])
next
  assume ok: "compute_vertices ls contour grid scores n = Inr out_vertices"
  note success = compute_vertices_success[OF assms ok]
  show "0 \<le> n" using success by blast
  show "length out_vertices = nat n" using success by blast
  show "\<exists>g s. cv_after ls grid scores n (nat n) = Inr (g, s, out_vertices)"
    using success by blast
next
  assume "j \<le> nat n \<and> cv_after ls grid scores n j = Inl e"
  then show "compute_vertices ls contour grid scores n = Inl e"
    using compute_vertices_propagates by blast
next
  assume "j < nat n \<and> cv_after ls grid scores n j = Inr (g0, [], out0)"
  then show "compute_vertices ls contour grid scores n = Inl ValueError"
    using compute_vertices_exhausted by blast
qed

text \<open>
  One iteration on the four-by-three lattice returns one row; two iterations asked of an
  empty grid fail at the first.
\<close>

theorem compute_vertices_iterations_witness:
  "length [(Finite (7 / 5), Finite 1)] = nat 1
   \<and> (\<exists>g s. cv_after 1 grid_4x3 scores_inner 1 (nat 1) = Inr (g, s, [(Finite (7 / 5), Finite 1)]))
   \<and> compute_vertices 1 [] [] [] 2 = Inl ValueError"
proof -
  have len: "length grid_4x3 = length scores_inner"
    by (simp add: scores_inner_def grid_4x3_def)
  have run: "compute_vertices 1 [] grid_4x3 scores_inner 1 = Inr [(Finite (7 / 5), Finite 1)]"
    by (simp add: compute_vertices_def cv_body_inner)
  have start: "(0 :: nat) < nat 2 \<and> cv_after 1 [] [] 2 0 = Inr ([], [], replicate 2 (Finite 0, Finite 0))"
    by (simp add: cv_after_0)
  have "length [(Finite (7 / 5), Finite 1)] = nat 1
      \<and> (\<exists>g s. cv_after 1 grid_4x3 scores_inner 1 (nat 1) = Inr (g, s, [(Finite (7 / 5), Finite 1)]))"
    using compute_vertices_iterations[OF len, where ls = 1 and n = 1 and contour = "[]"
        and out_vertices = "[(Finite (7 / 5), Finite 1)]"] run
    by blast
  moreover have "compute_vertices 1 [] [] [] 2 = Inl ValueError"
    using compute_vertices_iterations[of "[]" "[]", where ls = 1 and n = 2 and contour = "[]"
        and j = 0 and ?g0.0 = "[]" and ?out0.0 = "replicate 2 (Finite 0, Finite 0)"] start
    by simp
  ultimately show ?thesis by blast
qed

text \<open>
  The claim as stated has grid and scores strictly shorter after every iteration that
  does not fail. On the four-by-three lattice of spacing 1 with \<open>ls = 1\<close> the
  recovered point \<open>(7 / 5, 1)\<close> is farther than \<open>0.1\<close> from every grid point:
  the iteration succeeds and leaves both arrays as they were.
\<close>

theorem compute_vertices_no_shrink_counterexample:
  "cv_after 1 grid_4x3 scores_inner 1 0 = Inr (grid_4x3, scores_inner, [(Finite 0, Finite 0)])
   \<and> cv_after 1 grid_4x3 scores_inner 1 1 = Inr (grid_4x3, scores_inner, [(Finite (7 / 5), Finite 1)])
   \<and> compute_vertices 1 [] grid_4x3 scores_inner 1 = Inr [(Finite (7 / 5), Finite 1)]"
  by (simp add: cv_after_def compute_vertices_def cv_body_inner)

end
